theory Spec2Isabelle
  imports Main "HOL-Library.AList"
begin

section \<open>Python values used by the Zettelkasten manager\<close>

text \<open>
  The manager (\<^verbatim>\<open>b3fileorganizer/core/zettelkasten.py\<close>) keeps its state in dictionaries
  loaded from JSON documents. A dictionary is modelled as an association list with unique
  keys (\<open>map_of\<close> reads it, \<open>AList.update\<close> writes it), so that insertion order, which
  Python dictionaries keep, is part of the model. Strings are ASCII.
  The exceptions the modelled code can raise are values of \<open>exn\<close>.
\<close>

datatype exn =
  KeyError | TypeError | AttributeError | IndexError | OSError | ValueError | InterfaceError

text \<open>
  A value of the \<^verbatim>\<open>numbering_scheme\<close> dictionary: a counter, a list of ids, or the
  \<^verbatim>\<open>subtopics\<close> dictionary from a parent id to the ids of its children.
\<close>

datatype sval = SInt int | SList "string list" | SDict "(string \<times> string list) list"

type_synonym scheme = "(string \<times> sval) list"

text \<open>
  A numbering rule of the external rule table: \<^verbatim>\<open>rule.get("prefix", "")\<close> and
  \<^verbatim>\<open>rule.get("increment_field", None)\<close> read its two fields; \<open>None\<close> is a missing key.
\<close>

record rule =
  prefix :: "string option"
  increment_field :: "string option"

type_synonym rules = "(string \<times> rule) list"

subsection \<open>\<^verbatim>\<open>str(n)\<close> for an integer\<close>

fun digits :: "nat \<Rightarrow> string" where
  "digits n = (if n < 10 then [char_of (48 + n)] else digits (n div 10) @ [char_of (48 + n mod 10)])"

declare digits.simps [simp del]

definition str_int :: "int \<Rightarrow> string" where
  "str_int i = (if i < 0 then CHR ''-'' # digits (nat (- i)) else digits (nat i))"

subsection \<open>String helpers\<close>

definition isalpha :: "char \<Rightarrow> bool" where
  "isalpha c \<longleftrightarrow> (let n = (of_char c :: nat) in (65 \<le> n \<and> n \<le> 90) \<or> (97 \<le> n \<and> n \<le> 122))"

text \<open>\<^verbatim>\<open>category.split("/")[0]\<close>: the text before the first slash.\<close>

definition split_head :: "string \<Rightarrow> string" where
  "split_head s = takeWhile (\<lambda>c. c \<noteq> CHR ''/'') s"

text \<open>The letters \<^verbatim>\<open>chr(ord('a') + i) for i in range(26)\<close>.\<close>

definition az :: "char list" where
  "az = map (\<lambda>i. char_of (97 + i)) [0..<26]"

section \<open>NumberingAllocator\<close>

subsection \<open>\<^verbatim>\<open>_get_next_subtopic_letter\<close>\<close>

text \<open>
  \<^verbatim>\<open>item[-1]\<close> raises \<^verbatim>\<open>IndexError\<close> on an empty string; the list comprehension
  evaluates it for every item, so one empty item makes the call raise.
\<close>

definition get_next_subtopic_letter :: "string list \<Rightarrow> exn + string" where
  "get_next_subtopic_letter existing =
     (if existing = [] then Inr ''a''
      else if [] \<in> set existing then Inl IndexError
      else let letters = map last (filter (\<lambda>item. isalpha (last item)) existing) in
        if letters = [] then Inr ''a''
        else (case find (\<lambda>letter. letter \<notin> set letters) az of
                Some letter \<Rightarrow> Inr [letter]
              | None \<Rightarrow> Inr ''aa''))"

subsection \<open>\<^verbatim>\<open>generate_zettel_number\<close>\<close>

text \<open>
  The method mutates \<^verbatim>\<open>self.numbering_scheme\<close> in place, so an exception leaves the
  mutations made before it: every step returns the scheme it leaves together with its
  result. \<^verbatim>\<open>scheme[f] += 1\<close> raises \<^verbatim>\<open>KeyError\<close> on a missing key and
  \<^verbatim>\<open>TypeError\<close> on a list or dictionary; \<^verbatim>\<open>scheme[f].append(x)\<close> raises
  \<^verbatim>\<open>KeyError\<close> on a missing key and \<^verbatim>\<open>AttributeError\<close> on a value that is no list.
\<close>

definition incr_field :: "string \<Rightarrow> scheme \<Rightarrow> exn + (int \<times> scheme)" where
  "incr_field f s =
     (case map_of s f of
        None \<Rightarrow> Inl KeyError
      | Some (SInt n) \<Rightarrow> Inr (n + 1, AList.update f (SInt (n + 1)) s)
      | Some _ \<Rightarrow> Inl TypeError)"

definition append_field :: "string \<Rightarrow> string \<Rightarrow> scheme \<Rightarrow> exn + scheme" where
  "append_field f x s =
     (case map_of s f of
        None \<Rightarrow> Inl KeyError
      | Some (SList xs) \<Rightarrow> Inr (AList.update f (SList (xs @ [x])) s)
      | Some _ \<Rightarrow> Inl AttributeError)"

text \<open>
  The subtopic branch, written twice in the source with the same body:
  \<^verbatim>\<open>
  if parent not in self.numbering_scheme["subtopics"]:
      self.numbering_scheme["subtopics"][parent] = []
  existing = self.numbering_scheme["subtopics"][parent]
  next_letter = self._get_next_subtopic_letter(existing)
  number = f"{parent}{next_letter}"
  self.numbering_scheme["subtopics"][parent].append(number)
  \<close>
  A \<^verbatim>\<open>subtopics\<close> value that is a list or a counter raises \<^verbatim>\<open>TypeError\<close> at the
  membership test or at the subscript.
\<close>

definition children :: "(string \<times> string list) list \<Rightarrow> string \<Rightarrow> string list" where
  "children d parent = (case map_of d parent of Some xs \<Rightarrow> xs | None \<Rightarrow> [])"

definition alloc_subtopic :: "string \<Rightarrow> scheme \<Rightarrow> (exn + string) \<times> scheme" where
  "alloc_subtopic parent s =
     (case map_of s ''subtopics'' of
        None \<Rightarrow> (Inl KeyError, s)
      | Some (SDict d) \<Rightarrow>
          (let d1 = (if map_of d parent = None then AList.update parent [] d else d);
               s1 = AList.update ''subtopics'' (SDict d1) s;
               existing = children d1 parent
           in case get_next_subtopic_letter existing of
                Inl e \<Rightarrow> (Inl e, s1)
              | Inr next_letter \<Rightarrow>
                  (let number = parent @ next_letter
                   in (Inr number,
                       AList.update ''subtopics''
                         (SDict (AList.update parent (existing @ [number]) d1)) s1)))
      | Some _ \<Rightarrow> (Inl TypeError, s))"

text \<open>A counter bucket: increment the counter, build the id, track it in the bucket's list.\<close>

definition alloc_counter ::
  "string \<Rightarrow> string \<Rightarrow> string option \<Rightarrow> scheme \<Rightarrow> (exn + string) \<times> scheme" where
  "alloc_counter pfx field list_field s =
     (case incr_field field s of
        Inl e \<Rightarrow> (Inl e, s)
      | Inr (n, s1) \<Rightarrow>
          (let number = pfx @ str_int n
           in case list_field of
                None \<Rightarrow> (Inr number, s1)
              | Some lf \<Rightarrow>
                  (case append_field lf number s1 of
                     Inl e \<Rightarrow> (Inl e, s1)
                   | Inr s2 \<Rightarrow> (Inr number, s2))))"

definition list_field_of :: "string \<Rightarrow> string option" where
  "list_field_of category =
     (if category = ''main'' then Some ''main_topics''
      else if category = ''frequent'' then Some ''frequently_accessed''
      else if category = ''quote'' then Some ''quotes_excerpts''
      else None)"

text \<open>
  The in-memory part of \<^verbatim>\<open>generate_zettel_number\<close> (the argument \<^verbatim>\<open>content\<close> is
  unused by the source). \<^verbatim>\<open>if increment_field:\<close> is false for a missing and for an
  empty field name. The second branch of the source,
  \<^verbatim>\<open>elif category == "subtopic" and "subtopic" in rules\<close>, is kept as written although
  the first test already takes every category of the rule table.
\<close>

definition generate_number :: "rules \<Rightarrow> scheme \<Rightarrow> string \<Rightarrow> (exn + string) \<times> scheme" where
  "generate_number rls s category =
     (case map_of rls category of
        Some r \<Rightarrow>
          (let pfx = (case prefix r of Some p \<Rightarrow> p | None \<Rightarrow> [])
           in case increment_field r of
                None \<Rightarrow> (Inr ''unknown'', s)
              | Some f \<Rightarrow>
                  if f = [] then (Inr ''unknown'', s)
                  else alloc_counter pfx f (list_field_of category) s)
      | None \<Rightarrow>
          if category = ''subtopic'' \<and> map_of rls ''subtopic'' \<noteq> None then
            (let parent = (if CHR ''/'' \<in> set category then split_head category else ''1'')
             in alloc_subtopic parent s)
          else if category = ''frequent'' then
            alloc_counter ''A'' ''last_frequent'' (Some ''frequently_accessed'') s
          else if category = ''quote'' then
            alloc_counter ''Z'' ''last_quote'' (Some ''quotes_excerpts'') s
          else if category = ''main'' then
            alloc_counter [] ''last_main_topic'' (Some ''main_topics'') s
          else alloc_subtopic (split_head category) s)"

subsection \<open>Persisted documents\<close>

text \<open>
  A metadata document on disk is absent, unreadable, or holds a value.
  \<^verbatim>\<open>_load_metadata\<close> returns the default unless the file exists and decodes;
  \<^verbatim>\<open>_save_metadata\<close> logs and swallows every exception, so a failed write is not seen
  by the caller: the file is left as it was when it could not be opened, and truncated
  when the dump failed after opening.
\<close>

datatype 'a doc = Absent | Corrupt | Stored 'a

datatype write_outcome = WriteOk | OpenFailed | DumpFailed

definition load_metadata :: "'a doc \<Rightarrow> 'a \<Rightarrow> 'a" where
  "load_metadata d dflt = (case d of Stored x \<Rightarrow> x | _ \<Rightarrow> dflt)"

definition save_metadata :: "write_outcome \<Rightarrow> 'a \<Rightarrow> 'a doc \<Rightarrow> 'a doc" where
  "save_metadata w data d =
     (case w of WriteOk \<Rightarrow> Stored data | OpenFailed \<Rightarrow> d | DumpFailed \<Rightarrow> Corrupt)"

text \<open>
  \<^verbatim>\<open>generate_zettel_number\<close> with its write-through: the state is the scheme in memory
  and the scheme document on disk, and the scheme is saved only when no exception was
  raised before the last line.
\<close>

definition generate_zettel_number ::
  "write_outcome \<Rightarrow> rules \<Rightarrow> scheme \<times> scheme doc \<Rightarrow> string \<Rightarrow> string
     \<Rightarrow> (exn + string) \<times> scheme \<times> scheme doc" where
  "generate_zettel_number w rls st content category =
     (case generate_number rls (fst st) category of
        (Inl e, s') \<Rightarrow> (Inl e, s', snd st)
      | (Inr number, s') \<Rightarrow> (Inr number, s', save_metadata w s' (snd st)))"

text \<open>
  \<^verbatim>\<open>_load_numbering_rules\<close>: any exception (missing file, undecodable text, a document
  that is no dictionary) gives the empty table; otherwise
  \<^verbatim>\<open>rules.get("zettel_numbering_rules", {})\<close>.
\<close>

datatype rules_resource = Unreadable | Document "rules option"

definition load_numbering_rules :: "rules_resource \<Rightarrow> rules" where
  "load_numbering_rules res =
     (case res of Unreadable \<Rightarrow> [] | Document None \<Rightarrow> [] | Document (Some r) \<Rightarrow> r)"

text \<open>The scheme written by \<^verbatim>\<open>_initialize_structure\<close> when none was loaded.\<close>

definition fresh_scheme :: scheme where
  "fresh_scheme =
     [(''main_topics'', SList []), (''subtopics'', SDict []),
      (''frequently_accessed'', SList []), (''quotes_excerpts'', SList []),
      (''last_main_topic'', SInt 0), (''last_frequent'', SInt 0), (''last_quote'', SInt 0)]"

text \<open>
  The scheme part of the constructor: \<^verbatim>\<open>_load_metadata("numbering_scheme.json", {})\<close>
  followed by \<^verbatim>\<open>_initialize_structure\<close>, which bootstraps and saves an empty scheme.
\<close>

definition load_scheme :: "write_outcome \<Rightarrow> scheme doc \<Rightarrow> scheme \<times> scheme doc" where
  "load_scheme w d =
     (let s = load_metadata d [] in
      if s = [] then (fresh_scheme, save_metadata w fresh_scheme d) else (s, d))"

section \<open>CrossReferenceGraph\<close>

type_synonym xrefs = "(string \<times> string list) list"

text \<open>
  One pass of the loop body of \<^verbatim>\<open>_add_cross_references\<close> for one target: both
  adjacency lists are created when missing, then each id is appended to the other's list
  unless it is already there.
\<close>

definition adjacent :: "xrefs \<Rightarrow> string \<Rightarrow> string list" where
  "adjacent xr k = (case map_of xr k of Some ys \<Rightarrow> ys | None \<Rightarrow> [])"

definition add_edge :: "string \<Rightarrow> string \<Rightarrow> xrefs \<Rightarrow> xrefs" where
  "add_edge source_number target xr =
     (let xr1 = (if map_of xr source_number = None then AList.update source_number [] xr else xr);
          xr2 = (if map_of xr1 target = None then AList.update target [] xr1 else xr1);
          xr3 = (if target \<notin> set (adjacent xr2 source_number)
                 then AList.update source_number (adjacent xr2 source_number @ [target]) xr2
                 else xr2);
          xr4 = (if source_number \<notin> set (adjacent xr3 target)
                 then AList.update target (adjacent xr3 target @ [source_number]) xr3
                 else xr3)
      in xr4)"

text \<open>
  \<^verbatim>\<open>_add_cross_references\<close>: nothing happens, and nothing is saved, for an empty target
  list; otherwise the whole adjacency map is saved after the loop.
\<close>

definition add_cross_references ::
  "write_outcome \<Rightarrow> string \<Rightarrow> string list \<Rightarrow> xrefs \<times> xrefs doc \<Rightarrow> xrefs \<times> xrefs doc" where
  "add_cross_references w source_number target_numbers st =
     (if target_numbers = [] then st
      else let xr = fold (add_edge source_number) target_numbers (fst st)
           in (xr, save_metadata w xr (snd st)))"

section \<open>CardIndex\<close>

text \<open>
  An entry of the card index is a dictionary decoded from JSON; the values read by the
  modelled code are strings, lists of strings and \<^verbatim>\<open>null\<close>.
\<close>

datatype json = JNull | JStr string | JList "string list"

type_synonym card_info = "(string \<times> json) list"

type_synonym card_index = "(string \<times> card_info) list"




section \<open>ThematicConnectionFinder\<close>


definition lower_char :: "char \<Rightarrow> char" where
  "lower_char c =
     (let n = (of_char c :: nat) in if 65 \<le> n \<and> n \<le> 90 then char_of (n + 32) else c)"







section \<open>CardStore\<close>

record card_data =
  number :: string
  title :: string
  content :: string
  category :: string
  card_cross_references :: "string list"
  tags :: "string list"
  created :: string
  modified :: string

text \<open>The manager object and the documents and card files it persists.\<close>

record manager =
  base_path :: string
  zettel_numbering_rules :: rules
  cross_references :: xrefs
  numbering_scheme :: scheme
  card_index :: card_index

record disk =
  numbering_scheme_json :: "scheme doc"
  cross_references_json :: "xrefs doc"
  card_index_json :: "card_index doc"
  files :: "string \<Rightarrow> string option"

text \<open>
  What one call meets outside the program: the two readings of the clock, the outcome of
  each file-system operation, and the text of the card document. The document is built by
  \<^verbatim>\<open>_format_card_content\<close> from the card and the index; it lists tags in the iteration
  order of a Python set, which the language leaves open, and no property below depends on
  it, so it is a parameter.
\<close>

record env =
  now_created :: string
  now_modified :: string
  format_card_content :: "card_data \<Rightarrow> card_index \<Rightarrow> string"
  scheme_write :: write_outcome
  mkdir_ok :: bool
  card_write_ok :: bool
  extra_write_ok :: bool
  xref_write :: write_outcome
  index_write :: write_outcome





text \<open>
  The constructor: the rule table is loaded, the directories are made (an \<^verbatim>\<open>OSError\<close>
  of \<^verbatim>\<open>mkdir\<close> is not caught), the metadata documents are loaded, and
  \<^verbatim>\<open>_initialize_structure\<close> bootstraps the numbering scheme.
\<close>

definition new_manager ::
  "env \<Rightarrow> string \<Rightarrow> rules_resource \<Rightarrow> disk \<Rightarrow> exn + manager \<times> disk" where
  "new_manager e base res d =
     (if \<not> mkdir_ok e then Inl OSError
      else let sch = load_scheme (scheme_write e) (numbering_scheme_json d)
           in Inr (\<lparr>base_path = base,
                     zettel_numbering_rules = load_numbering_rules res,
                     cross_references = load_metadata (cross_references_json d) [],
                     numbering_scheme = fst sch,
                     card_index = load_metadata (card_index_json d) []\<rparr>,
                   d\<lparr>numbering_scheme_json := snd sch\<rparr>))"

text \<open>An environment in which every operation succeeds, and the empty disk.\<close>

definition env_ok :: "string \<Rightarrow> (card_data \<Rightarrow> card_index \<Rightarrow> string) \<Rightarrow> env" where
  "env_ok t fmt =
     \<lparr>now_created = t, now_modified = t, format_card_content = fmt,
      scheme_write = WriteOk, mkdir_ok = True, card_write_ok = True, extra_write_ok = True,
      xref_write = WriteOk, index_write = WriteOk\<rparr>"

definition empty_disk :: disk where
  "empty_disk =
     \<lparr>numbering_scheme_json = Absent, cross_references_json = Absent,
      card_index_json = Absent, files = (\<lambda>p. None)\<rparr>"

section \<open>SearchIndex\<close>

text \<open>
  The indexer (\<^verbatim>\<open>b3fileorganizer/core/zettel_indexer.py\<close>) keeps a copy of the card index
  taken by its constructor and one table keyed by the zettel number. The table is a list
  of rows in insertion order; \<^verbatim>\<open>REPLACE INTO\<close> deletes a row with the same key and
  inserts the new row. A \<^verbatim>\<open>TEXT\<close> column bound to \<^verbatim>\<open>None\<close> is \<^verbatim>\<open>NULL\<close>. The tag
  and cross-reference columns hold \<^verbatim>\<open>json.dumps\<close> of a value and are decoded again by
  \<^verbatim>\<open>json.loads\<close> when a row is returned, so the row keeps the value and the text is
  computed where the query reads it.
\<close>

record row =
  row_title :: "string option"
  row_category :: "string option"
  row_tags :: json
  row_cross_references :: json
  row_file_path :: string
  row_content_preview :: string

type_synonym table = "(string \<times> row) list"

record indexer =
  snapshot :: card_index
  zettel_index :: table

definition replace_into :: "string \<Rightarrow> row \<Rightarrow> table \<Rightarrow> table" where
  "replace_into k r t = filter (\<lambda>kr. fst kr \<noteq> k) t @ [(k, r)]"

subsection \<open>\<^verbatim>\<open>json.dumps\<close> of the values of an entry\<close>

definition json_quote :: "string \<Rightarrow> string" where
  "json_quote s =
     [CHR 0x22] @ concat (map (\<lambda>c. if c = CHR 0x22 \<or> c = CHR 0x5C then [CHR 0x5C, c] else [c]) s)
       @ [CHR 0x22]"

fun join_comma :: "string list \<Rightarrow> string" where
  "join_comma [] = []"
| "join_comma [x] = x"
| "join_comma (x # y # ys) = x @ '', '' @ join_comma (y # ys)"

definition json_dumps :: "json \<Rightarrow> string" where
  "json_dumps v =
     (case v of
        JNull \<Rightarrow> ''null''
      | JStr s \<Rightarrow> json_quote s
      | JList xs \<Rightarrow> ''['' @ join_comma (map json_quote xs) @ '']'')"

subsection \<open>The \<^verbatim>\<open>LIKE\<close> operator\<close>

text \<open>
  In a pattern \<^verbatim>\<open>%\<close> stands for any run of characters and \<^verbatim>\<open>_\<close> for any one
  character; every other character stands for itself, upper and lower case alike.
\<close>

fun like :: "string \<Rightarrow> string \<Rightarrow> bool" where
  "like [] [] = True"
| "like [] (c # cs) = False"
| "like (p # ps) [] = (p = CHR ''%'' \<and> like ps [])"
| "like (p # ps) (c # cs) =
     (if p = CHR ''%'' then like ps (c # cs) \<or> like (p # ps) cs
      else (p = CHR ''_'' \<or> lower_char p = lower_char c) \<and> like ps cs)"

definition like_opt :: "string \<Rightarrow> string option \<Rightarrow> bool" where
  "like_opt pat col = (case col of None \<Rightarrow> False | Some s \<Rightarrow> like pat s)"

subsection \<open>Reading a card file\<close>

text \<open>
  \<^verbatim>\<open>str.strip\<close> removes the ASCII white space of both ends; \<^verbatim>\<open>readlines\<close> cuts the
  text after every line feed.
\<close>

definition isspace :: "char \<Rightarrow> bool" where
  "isspace c \<longleftrightarrow> (let n = (of_char c :: nat) in (9 \<le> n \<and> n \<le> 13) \<or> (28 \<le> n \<and> n \<le> 32))"

definition strip :: "string \<Rightarrow> string" where
  "strip s = rev (dropWhile isspace (rev (dropWhile isspace s)))"

fun readlines_aux :: "string \<Rightarrow> string \<Rightarrow> string list" where
  "readlines_aux cur [] = (if cur = [] then [] else [cur])"
| "readlines_aux cur (c # cs) =
     (if c = CHR 0x0A then (cur @ [c]) # readlines_aux [] cs
      else readlines_aux (cur @ [c]) cs)"

definition readlines :: "string \<Rightarrow> string list" where
  "readlines text = readlines_aux [] text"

text \<open>A file is missing, cannot be read or decoded, or gives its text.\<close>

datatype fread = Missing | Unreadable_file | Text string

definition falsy :: "json \<Rightarrow> bool" where
  "falsy v \<longleftrightarrow> v = JNull \<or> v = JStr [] \<or> v = JList []"

definition first_nonblank :: "string list \<Rightarrow> string option" where
  "first_nonblank lines = map_option strip (find (\<lambda>line. strip line \<noteq> []) lines)"

definition bind_text :: "json \<Rightarrow> exn + string option" where
  "bind_text v =
     (case v of JNull \<Rightarrow> Inr None | JStr s \<Rightarrow> Inr (Some s) | JList xs \<Rightarrow> Inl InterfaceError)"

text \<open>
  The body shared by the loop of \<^verbatim>\<open>index_all\<close> and by \<^verbatim>\<open>update_card\<close>: the row made
  for one entry of the card index. \<^verbatim>\<open>meta["file_path"]\<close> raises \<^verbatim>\<open>KeyError\<close> when
  the key is missing and \<^verbatim>\<open>Path\<close> raises \<^verbatim>\<open>TypeError\<close> on a value that is no string;
  a title or category that is a list cannot be bound to the statement.
\<close>

definition make_row :: "(string \<Rightarrow> fread) \<Rightarrow> card_info \<Rightarrow> exn + row" where
  "make_row fs meta =
     (case map_of meta ''file_path'' of
        None \<Rightarrow> Inl KeyError
      | Some (JStr file_path) \<Rightarrow>
          (let title0 = (case map_of meta ''title'' of None \<Rightarrow> JStr [] | Some v \<Rightarrow> v);
               cat = (case map_of meta ''category'' of None \<Rightarrow> JStr [] | Some v \<Rightarrow> v);
               tgs = (case map_of meta ''tags'' of None \<Rightarrow> JList [] | Some v \<Rightarrow> v);
               cross_refs = (case map_of meta ''cross_references'' of
                               None \<Rightarrow> JList [] | Some v \<Rightarrow> v);
               title1 = (case fs file_path of
                           Text text \<Rightarrow>
                             (if falsy title0
                              then (case first_nonblank (readlines text) of
                                      Some t \<Rightarrow> JStr t | None \<Rightarrow> title0)
                              else title0)
                         | _ \<Rightarrow> title0);
               content_preview = (case fs file_path of
                                    Missing \<Rightarrow> []
                                  | Unreadable_file \<Rightarrow> ''[Error reading file]''
                                  | Text text \<Rightarrow> take 500 (concat (take 10 (readlines text))))
           in case bind_text title1 of
                Inl e \<Rightarrow> Inl e
              | Inr t \<Rightarrow>
                  (case bind_text cat of
                     Inl e \<Rightarrow> Inl e
                   | Inr c \<Rightarrow>
                       Inr \<lparr>row_title = t, row_category = c, row_tags = tgs,
                            row_cross_references = cross_refs, row_file_path = file_path,
                            row_content_preview = content_preview\<rparr>))
      | Some _ \<Rightarrow> Inl TypeError)"

subsection \<open>The operations\<close>

text \<open>
  The constructor reads the card-index document: a missing file gives the empty index,
  an undecodable one raises out of the constructor. The table is the one found in the
  database file.
\<close>

definition new_indexer :: "card_index doc \<Rightarrow> table \<Rightarrow> exn + indexer" where
  "new_indexer d t =
     (case d of
        Absent \<Rightarrow> Inr \<lparr>snapshot = [], zettel_index = t\<rparr>
      | Corrupt \<Rightarrow> Inl ValueError
      | Stored idx \<Rightarrow> Inr \<lparr>snapshot = idx, zettel_index = t\<rparr>)"

text \<open>
  \<^verbatim>\<open>index_all\<close>: the table is emptied, then one row is written per entry of the copy
  of the card index. An exception leaves the rows written so far.
\<close>

fun index_loop :: "(string \<Rightarrow> fread) \<Rightarrow> card_index \<Rightarrow> table \<Rightarrow> exn option \<times> table" where
  "index_loop fs [] t = (None, t)"
| "index_loop fs ((zettel_number, meta) # rest) t =
     (case make_row fs meta of
        Inl e \<Rightarrow> (Some e, t)
      | Inr r \<Rightarrow> index_loop fs rest (replace_into zettel_number r t))"

definition index_all :: "(string \<Rightarrow> fread) \<Rightarrow> indexer \<Rightarrow> exn option \<times> indexer" where
  "index_all fs ix =
     (case index_loop fs (snapshot ix) [] of
        (r, t) \<Rightarrow> (r, ix\<lparr>zettel_index := t\<rparr>))"

text \<open>
  \<^verbatim>\<open>update_card\<close>: \<^verbatim>\<open>if not meta: return\<close> leaves the table alone for an id that the
  copy of the card index does not hold (or holds with an empty entry).
\<close>

definition update_card :: "(string \<Rightarrow> fread) \<Rightarrow> indexer \<Rightarrow> string \<Rightarrow> exn option \<times> indexer" where
  "update_card fs ix zettel_number =
     (case map_of (snapshot ix) zettel_number of
        None \<Rightarrow> (None, ix)
      | Some meta \<Rightarrow>
          if meta = [] then (None, ix)
          else (case make_row fs meta of
                  Inl e \<Rightarrow> (Some e, ix)
                | Inr r \<Rightarrow> (None, ix\<lparr>zettel_index := replace_into zettel_number r (zettel_index ix)\<rparr>)))"

text \<open>\<^verbatim>\<open>search\<close>: the rows whose title, category or tag text is like \<^verbatim>\<open>%query%\<close>.\<close>

definition search_matches :: "string \<Rightarrow> row \<Rightarrow> bool" where
  "search_matches query r \<longleftrightarrow>
     (let pat = ''%'' @ query @ ''%''
      in like_opt pat (row_title r) \<or> like_opt pat (row_category r)
         \<or> like pat (json_dumps (row_tags r)))"

definition search :: "indexer \<Rightarrow> string \<Rightarrow> (string \<times> row) list" where
  "search ix query = filter (\<lambda>kr. search_matches query (snd kr)) (zettel_index ix)"

definition indexer_get_card :: "indexer \<Rightarrow> string \<Rightarrow> row option" where
  "indexer_get_card ix zettel_number = map_of (zettel_index ix) zettel_number"

text \<open>What the indexer finds at a path of the manager's disk.\<close>

definition read_files :: "disk \<Rightarrow> string \<Rightarrow> fread" where
  "read_files d p = (case files d p of None \<Rightarrow> Missing | Some text \<Rightarrow> Text text)"

section \<open>Sequences of calls\<close>

text \<open>A sequence of \<^verbatim>\<open>_add_cross_references\<close> calls, each with the outcome of its save.\<close>

fun add_all ::
  "(write_outcome \<times> string \<times> string list) list \<Rightarrow> xrefs \<times> xrefs doc \<Rightarrow> xrefs \<times> xrefs doc" where
  "add_all [] st = st"
| "add_all ((w, source_number, target_numbers) # calls) st =
     add_all calls (add_cross_references w source_number target_numbers st)"

text \<open>
  The invariant of the cross-reference graph: adjacency is symmetric and no adjacency list
  holds an id twice.
\<close>

definition symmetric_graph :: "xrefs \<Rightarrow> bool" where
  "symmetric_graph xr \<longleftrightarrow>
     (\<forall>a b. b \<in> set (adjacent xr a) \<longleftrightarrow> a \<in> set (adjacent xr b)) \<and> (\<forall>a. distinct (adjacent xr a))"

section \<open>Notions used to state the properties\<close>






subsection \<open>Shape of the numbering scheme\<close>

text \<open>
  Every operation keeps the keys of the scheme and the kind of each value, and never
  lowers a counter: \<open>shape_le s s'\<close> says so of two schemes.
\<close>

definition kind_of :: "sval option \<Rightarrow> nat" where
  "kind_of v = (case v of None \<Rightarrow> 0 | Some (SInt n) \<Rightarrow> 1 | Some (SList xs) \<Rightarrow> 2 | Some (SDict d) \<Rightarrow> 3)"

definition count_of :: "sval option \<Rightarrow> int" where
  "count_of v = (case v of Some (SInt n) \<Rightarrow> n | _ \<Rightarrow> 0)"

definition shape_le :: "scheme \<Rightarrow> scheme \<Rightarrow> bool" where
  "shape_le s s' \<longleftrightarrow>
     (\<forall>k. kind_of (map_of s k) = kind_of (map_of s' k)
          \<and> count_of (map_of s k) \<le> count_of (map_of s' k))"

definition is_int :: "scheme \<Rightarrow> string \<Rightarrow> bool" where
  "is_int s f = (case map_of s f of Some (SInt n) \<Rightarrow> True | _ \<Rightarrow> False)"

definition is_list :: "scheme \<Rightarrow> string \<Rightarrow> bool" where
  "is_list s f = (case map_of s f of Some (SList xs) \<Rightarrow> True | _ \<Rightarrow> False)"

definition subtopics_ok :: "scheme \<Rightarrow> bool" where
  "subtopics_ok s =
     (case map_of s ''subtopics'' of
        Some (SDict d) \<Rightarrow> (\<forall>entry \<in> set d. [] \<notin> set (snd entry))
      | _ \<Rightarrow> False)"

text \<open>
  A scheme of the shape \<^verbatim>\<open>_initialize_structure\<close> writes: the three counters, the three
  lists, and the subtopic dictionary, whose children are ids (not empty).
\<close>

definition scheme_ok :: "scheme \<Rightarrow> bool" where
  "scheme_ok s \<longleftrightarrow>
     is_int s ''last_main_topic'' \<and> is_int s ''last_frequent'' \<and> is_int s ''last_quote''
     \<and> is_list s ''main_topics'' \<and> is_list s ''frequently_accessed''
     \<and> is_list s ''quotes_excerpts'' \<and> subtopics_ok s"

text \<open>A rule table whose increment fields name counters of the scheme.\<close>

definition rules_ok :: "rules \<Rightarrow> scheme \<Rightarrow> bool" where
  "rules_ok rls s \<longleftrightarrow>
     (\<forall>entry \<in> set rls.
        case increment_field (snd entry) of
          None \<Rightarrow> True
        | Some f \<Rightarrow> f = [] \<or> is_int s f)"

text \<open>
  The counter bucket of a category: the prefix and the counter field of its rule when the
  rule has an increment field, the built-in bucket when the category has no rule and is
  \<^verbatim>\<open>main\<close>, \<^verbatim>\<open>frequent\<close> or \<^verbatim>\<open>quote\<close>.
\<close>

definition bucket_of :: "rules \<Rightarrow> string \<Rightarrow> (string \<times> string) option" where
  "bucket_of rls cat =
     (case map_of rls cat of
        Some r \<Rightarrow>
          (case increment_field r of
             None \<Rightarrow> None
           | Some f \<Rightarrow>
               if f = [] then None
               else Some ((case prefix r of Some p \<Rightarrow> p | None \<Rightarrow> []), f))
      | None \<Rightarrow>
          if cat = ''frequent'' then Some (''A'', ''last_frequent'')
          else if cat = ''quote'' then Some (''Z'', ''last_quote'')
          else if cat = ''main'' then Some ([], ''last_main_topic'')
          else None)"

subsection \<open>Runs of the allocator\<close>

text \<open>
  What happens to the numbering scheme over time: an allocation for a category, with the
  outcome of its write-through, or the construction of a new manager, which loads the
  scheme from disk (and bootstraps it when none is loaded). A run lists, for every
  allocation, its category and what it returned or raised.
\<close>

datatype event = Allocate write_outcome string | Reload write_outcome

fun step ::
  "rules \<Rightarrow> event \<Rightarrow> scheme \<times> scheme doc
     \<Rightarrow> (string \<times> (exn + string)) option \<times> scheme \<times> scheme doc" where
  "step rls (Allocate w cat) st =
     (case generate_zettel_number w rls st [] cat of
        (r, st') \<Rightarrow> (Some (cat, r), st'))"
| "step rls (Reload w) st = (None, load_scheme w (snd st))"

fun run ::
  "rules \<Rightarrow> event list \<Rightarrow> scheme \<times> scheme doc \<Rightarrow> (string \<times> (exn + string)) option list" where
  "run rls [] st = []"
| "run rls (ev # evs) st = fst (step rls ev st) # run rls evs (snd (step rls ev st))"

definition write_ok :: "event \<Rightarrow> bool" where
  "write_ok ev = (case ev of Allocate w cat \<Rightarrow> w = WriteOk | Reload w \<Rightarrow> True)"

text \<open>
  The rule for \<^verbatim>\<open>main\<close> is absent (the built-in bucket applies) or is the one of the
  built-in bucket: no prefix, counter \<^verbatim>\<open>last_main_topic\<close>.
\<close>

definition main_rule_standard :: "rules \<Rightarrow> bool" where
  "main_rule_standard rls =
     (case map_of rls ''main'' of
        None \<Rightarrow> True
      | Some r \<Rightarrow> (prefix r = None \<or> prefix r = Some []) \<and> increment_field r = Some ''last_main_topic'')"

subsection \<open>Reading a decimal numeral\<close>

definition digit_val :: "char \<Rightarrow> nat" where
  "digit_val c = of_char c - 48"

definition undigits :: "string \<Rightarrow> nat" where
  "undigits s = foldl (\<lambda>a c. 10 * a + digit_val c) 0 s"

section \<open>Properties of the allocator\<close>

subsection \<open>The next subtopic letter\<close>

lemma az_literal: "az = ''abcdefghijklmnopqrstuvwxyz''"
  by code_simp

lemma length_az: "length az = 26"
  by (simp add: az_def)

lemma az_isalpha: "l \<in> set az \<Longrightarrow> isalpha l"
  unfolding az_literal by (auto simp: isalpha_def)

text \<open>The filter on alphabetic last characters does not change which letters are free.\<close>

lemma find_unused:
  "find (\<lambda>letter. letter \<notin> set (map last (filter (\<lambda>item. isalpha (last item)) existing))) az
   = find (\<lambda>letter. letter \<notin> last ` set existing) az"
  by (rule find_cong) (auto simp: az_isalpha)

lemma next_letter_find:
  assumes "[] \<notin> set existing"
  shows "get_next_subtopic_letter existing =
           (case find (\<lambda>letter. letter \<notin> last ` set existing) az of
              Some letter \<Rightarrow> Inr [letter] | None \<Rightarrow> Inr ''aa'')"
proof (cases "map last (filter (\<lambda>item. isalpha (last item)) existing) = []")
  case True
  then have "CHR ''a'' \<notin> set (map last (filter (\<lambda>item. isalpha (last item)) existing))"
    by simp
  then have "CHR ''a'' \<notin> last ` set existing"
    using az_isalpha [of "CHR ''a''"] by (auto simp: az_literal)
  then have "find (\<lambda>letter. letter \<notin> last ` set existing) az = Some (CHR ''a'')"
    by (simp add: az_literal)
  with True assms show ?thesis
    by (simp add: get_next_subtopic_letter_def)
next
  case False
  then have "existing \<noteq> []" by auto
  with False assms show ?thesis
    unfolding get_next_subtopic_letter_def Let_def find_unused by simp
qed

lemma next_letter_spec:
  assumes "[] \<notin> set existing"
  shows "(\<exists>i<26. get_next_subtopic_letter existing = Inr [az ! i]
            \<and> az ! i \<notin> last ` set existing \<and> (\<forall>j<i. az ! j \<in> last ` set existing))
       \<or> (get_next_subtopic_letter existing = Inr ''aa'' \<and> set az \<subseteq> last ` set existing)"
proof (cases "find (\<lambda>letter. letter \<notin> last ` set existing) az")
  case None
  have "set az \<subseteq> last ` set existing"
    using None by (auto simp: find_None_iff)
  moreover have "get_next_subtopic_letter existing = Inr ''aa''"
    using next_letter_find [OF assms] None by simp
  ultimately show ?thesis by blast
next
  case (Some l)
  then obtain i where "i < length az" "az ! i \<notin> last ` set existing" "l = az ! i"
    "\<forall>j<i. az ! j \<in> last ` set existing"
    by (auto simp: find_Some_iff)
  moreover have "get_next_subtopic_letter existing = Inr [l]"
    using next_letter_find [OF assms] Some by simp
  ultimately show ?thesis
    by (auto simp: length_az)
qed

lemma next_letter_total:
  assumes "[] \<notin> set existing"
  shows "\<exists>l. get_next_subtopic_letter existing = Inr l \<and> l \<noteq> []"
  using next_letter_spec [OF assms] by auto

subsection \<open>The subtopic branch\<close>

lemma children_after_create:
  "children (if map_of d p = None then AList.update p [] d else d) p = children d p"
  by (auto simp: children_def update_conv')

lemma alloc_subtopic_result:
  assumes "map_of s ''subtopics'' = Some (SDict d)"
  shows "fst (alloc_subtopic p s) =
           (case get_next_subtopic_letter (children d p) of
              Inl e \<Rightarrow> Inl e | Inr l \<Rightarrow> Inr (p @ l))"
  using assms
  by (simp add: alloc_subtopic_def Let_def children_after_create split: sum.splits)

lemma generate_number_subtopic:
  assumes "map_of rls c = None" "c \<noteq> ''frequent''" "c \<noteq> ''quote''" "c \<noteq> ''main''"
  shows "generate_number rls s c = alloc_subtopic (split_head c) s"
proof (cases "c = ''subtopic''")
  case True
  with assms(1) have "map_of rls ''subtopic'' = None" by simp
  with True show ?thesis
    by (simp add: generate_number_def)
next
  case False
  with assms show ?thesis
    by (simp add: generate_number_def)
qed

lemma split_head_no_slash: "CHR ''/'' \<notin> set p \<Longrightarrow> split_head p = p"
  by (auto simp: split_head_def takeWhile_eq_all_conv)

lemma next_letter_3c: "get_next_subtopic_letter [''3a'', ''3b''] = Inr ''c''"
  by code_simp

lemma next_letter_3aa: "get_next_subtopic_letter (map (\<lambda>l. [CHR ''3'', l]) az) = Inr ''aa''"
  by code_simp

text \<open>
  Claim C3. A category \<open>c\<close> that has no rule and is none of the three counter buckets is a
  subtopic request for the parent \<open>split_head c\<close> (the category itself when it holds no
  slash). When the parent's children are ids (non-empty strings), the id returned is the
  parent followed by the first letter of \<open>a..z\<close> that is not the last character of a
  child, and the parent followed by \<open>aa\<close> when all 26 letters are taken. For the parent
  \<open>3\<close> with children \<open>3a\<close>, \<open>3b\<close> the id is \<open>3c\<close>; with children \<open>3a\<close> to \<open>3z\<close>
  it is \<open>3aa\<close>.
\<close>

theorem subtopic_allocation_next_letter:
  "(\<forall>rls s d c. map_of rls c = None \<and> c \<notin> {''frequent'', ''quote'', ''main''}
        \<and> map_of s ''subtopics'' = Some (SDict d) \<and> [] \<notin> set (children d (split_head c)) \<longrightarrow>
      (\<exists>i<26. fst (generate_number rls s c) = Inr (split_head c @ [az ! i])
           \<and> az ! i \<notin> last ` set (children d (split_head c))
           \<and> (\<forall>j<i. az ! j \<in> last ` set (children d (split_head c))))
      \<or> (fst (generate_number rls s c) = Inr (split_head c @ ''aa'')
           \<and> set az \<subseteq> last ` set (children d (split_head c))))
   \<and> (\<forall>p. CHR ''/'' \<notin> set p \<longrightarrow> split_head p = p)
   \<and> az = ''abcdefghijklmnopqrstuvwxyz''
   \<and> fst (generate_number []
            (AList.update ''subtopics'' (SDict [(''3'', [''3a'', ''3b''])]) fresh_scheme) ''3'')
       = Inr ''3c''
   \<and> fst (generate_number []
            (AList.update ''subtopics'' (SDict [(''3'', map (\<lambda>l. ''3'' @ [l]) az)]) fresh_scheme) ''3'')
       = Inr ''3aa''"
proof (intro conjI allI impI)
  fix rls :: rules and s :: scheme and d c
  assume h: "map_of rls c = None \<and> c \<notin> {''frequent'', ''quote'', ''main''}
        \<and> map_of s ''subtopics'' = Some (SDict d) \<and> [] \<notin> set (children d (split_head c))"
  then have g: "fst (generate_number rls s c) =
      (case get_next_subtopic_letter (children d (split_head c)) of
         Inl e \<Rightarrow> Inl e | Inr l \<Rightarrow> Inr (split_head c @ l))"
    by (simp add: generate_number_subtopic alloc_subtopic_result)
  from h have "[] \<notin> set (children d (split_head c))" by simp
  from next_letter_spec [OF this] g
  show "(\<exists>i<26. fst (generate_number rls s c) = Inr (split_head c @ [az ! i])
           \<and> az ! i \<notin> last ` set (children d (split_head c))
           \<and> (\<forall>j<i. az ! j \<in> last ` set (children d (split_head c))))
      \<or> (fst (generate_number rls s c) = Inr (split_head c @ ''aa'')
           \<and> set az \<subseteq> last ` set (children d (split_head c)))"
    by auto
next
  fix p :: string assume "CHR ''/'' \<notin> set p" then show "split_head p = p"
    by (rule split_head_no_slash)
next
  show "az = ''abcdefghijklmnopqrstuvwxyz''" by (rule az_literal)
next
  show "fst (generate_number []
            (AList.update ''subtopics'' (SDict [(''3'', [''3a'', ''3b''])]) fresh_scheme) ''3'')
       = Inr ''3c''"
    by (simp add: generate_number_subtopic alloc_subtopic_result fresh_scheme_def children_def
          next_letter_3c split_head_def)
next
  show "fst (generate_number []
            (AList.update ''subtopics'' (SDict [(''3'', map (\<lambda>l. ''3'' @ [l]) az)]) fresh_scheme) ''3'')
       = Inr ''3aa''"
    by (simp add: generate_number_subtopic alloc_subtopic_result fresh_scheme_def children_def
          next_letter_3aa split_head_def)
qed

theorem subtopic_allocation_next_letter_witness:
  "map_of ([] :: rules) ''3'' = None \<and> ''3'' \<notin> {''frequent'', ''quote'', ''main''}
   \<and> map_of (AList.update ''subtopics'' (SDict [(''3'', [''3a'', ''3b''])]) fresh_scheme)
        ''subtopics'' = Some (SDict [(''3'', [''3a'', ''3b''])])
   \<and> [] \<notin> set (children [(''3'', [''3a'', ''3b''])] (split_head ''3''))
   \<and> ((\<exists>i<26. fst (generate_number []
                    (AList.update ''subtopics'' (SDict [(''3'', [''3a'', ''3b''])]) fresh_scheme)
                    ''3'') = Inr (split_head ''3'' @ [az ! i])
           \<and> az ! i \<notin> last ` set (children [(''3'', [''3a'', ''3b''])] (split_head ''3''))
           \<and> (\<forall>j<i. az ! j \<in> last ` set (children [(''3'', [''3a'', ''3b''])] (split_head ''3''))))
      \<or> (fst (generate_number []
                 (AList.update ''subtopics'' (SDict [(''3'', [''3a'', ''3b''])]) fresh_scheme)
                 ''3'') = Inr (split_head ''3'' @ ''aa'')
           \<and> set az \<subseteq> last ` set (children [(''3'', [''3a'', ''3b''])] (split_head ''3''))))"
proof -
  have h: "map_of ([] :: rules) ''3'' = None \<and> ''3'' \<notin> {''frequent'', ''quote'', ''main''}
   \<and> map_of (AList.update ''subtopics'' (SDict [(''3'', [''3a'', ''3b''])]) fresh_scheme)
        ''subtopics'' = Some (SDict [(''3'', [''3a'', ''3b''])])
   \<and> [] \<notin> set (children [(''3'', [''3a'', ''3b''])] (split_head ''3''))"
    by (simp add: fresh_scheme_def children_def split_head_def)
  from subtopic_allocation_next_letter [THEN conjunct1, rule_format, OF h] h
  show ?thesis by blast
qed

section \<open>Properties of the cross-reference graph\<close>

lemma adjacent_update:
  "adjacent (AList.update k v xr) k' = (if k' = k then v else adjacent xr k')"
  by (simp add: adjacent_def update_conv')

lemma adjacent_ensure:
  "adjacent (if map_of xr k = None then AList.update k [] xr else xr) k' = adjacent xr k'"
  by (auto simp: adjacent_def update_conv')

lemma adjacent_add_edge:
  "adjacent (add_edge s t xr) k =
     (if k = s then (if t \<in> set (adjacent xr s) then adjacent xr s else adjacent xr s @ [t])
      else if k = t then (if s \<in> set (adjacent xr t) then adjacent xr t else adjacent xr t @ [s])
      else adjacent xr k)"
proof -
  define xr1 where "xr1 = (if map_of xr s = None then AList.update s [] xr else xr)"
  define xr2 where "xr2 = (if map_of xr1 t = None then AList.update t [] xr1 else xr1)"
  define xr3 where "xr3 = (if t \<notin> set (adjacent xr2 s)
                 then AList.update s (adjacent xr2 s @ [t]) xr2 else xr2)"
  define xr4 where "xr4 = (if s \<notin> set (adjacent xr3 t)
                 then AList.update t (adjacent xr3 t @ [s]) xr3 else xr3)"
  have e: "add_edge s t xr = xr4"
    by (simp add: add_edge_def Let_def xr1_def xr2_def xr3_def xr4_def)
  have a1: "adjacent xr1 k' = adjacent xr k'" for k'
    unfolding xr1_def by (rule adjacent_ensure)
  have a2: "adjacent xr2 k' = adjacent xr k'" for k'
    unfolding xr2_def by (simp only: adjacent_ensure a1)
  have a3: "adjacent xr3 k' =
      (if k' = s \<and> t \<notin> set (adjacent xr s) then adjacent xr s @ [t] else adjacent xr k')" for k'
    by (simp add: xr3_def a2 adjacent_update)
  have a4: "adjacent xr4 k' =
      (if k' = t \<and> s \<notin> set (adjacent xr3 t) then adjacent xr3 t @ [s] else adjacent xr3 k')" for k'
    by (simp add: xr4_def adjacent_update)
  show ?thesis
    unfolding e a4 a3 by auto
qed

lemma add_edge_present:
  assumes "t \<in> set (adjacent xr s)" "s \<in> set (adjacent xr t)"
  shows "add_edge s t xr = xr"
proof -
  from assms obtain ys zs where "map_of xr s = Some ys" "map_of xr t = Some zs"
    by (cases "map_of xr s"; cases "map_of xr t"; simp add: adjacent_def)
  with assms show ?thesis
    by (simp add: add_edge_def Let_def)
qed

lemma symmetric_add_edge:
  assumes "symmetric_graph xr"
  shows "symmetric_graph (add_edge s t xr)"
  using assms unfolding symmetric_graph_def adjacent_add_edge by auto

lemma symmetric_fold:
  "symmetric_graph xr \<Longrightarrow> symmetric_graph (fold (add_edge s) ts xr)"
  by (induction ts arbitrary: xr) (simp_all add: symmetric_add_edge)

lemma symmetric_add_cross_references:
  "symmetric_graph (fst st) \<Longrightarrow> symmetric_graph (fst (add_cross_references w s ts st))"
  by (simp add: add_cross_references_def Let_def symmetric_fold)

lemma symmetric_add_all:
  "symmetric_graph (fst st) \<Longrightarrow> symmetric_graph (fst (add_all calls st))"
  by (induction calls st rule: add_all.induct) (simp_all add: symmetric_add_cross_references)

lemma symmetric_empty: "symmetric_graph []"
  by (simp add: symmetric_graph_def adjacent_def)

lemma edge_kept:
  "b \<in> set (adjacent xr a) \<Longrightarrow> b \<in> set (adjacent (add_edge s t xr) a)"
  by (auto simp: adjacent_add_edge)

lemma edge_kept_fold:
  "b \<in> set (adjacent xr a) \<Longrightarrow> b \<in> set (adjacent (fold (add_edge s) ts xr) a)"
  by (induction ts arbitrary: xr) (simp_all add: edge_kept)

lemma edges_after_fold:
  "t \<in> set ts \<Longrightarrow> t \<in> set (adjacent (fold (add_edge s) ts xr) s)
     \<and> s \<in> set (adjacent (fold (add_edge s) ts xr) t)"
proof (induction ts arbitrary: xr)
  case Nil
  then show ?case by simp
next
  case (Cons u us)
  show ?case
  proof (cases "t = u")
    case True
    have "t \<in> set (adjacent (add_edge s t xr) s)" "s \<in> set (adjacent (add_edge s t xr) t)"
      by (simp_all add: adjacent_add_edge)
    then show ?thesis using True by (simp add: edge_kept_fold)
  next
    case False
    with Cons show ?thesis by simp
  qed
qed

lemma fold_present:
  "(\<forall>t\<in>set ts. t \<in> set (adjacent xr s) \<and> s \<in> set (adjacent xr t))
     \<Longrightarrow> fold (add_edge s) ts xr = xr"
  by (induction ts) (simp_all add: add_edge_present)

lemma add_cross_references_idem:
  "fst (add_cross_references w' s ts (add_cross_references w s ts st))
     = fst (add_cross_references w s ts st)"
  by (simp add: add_cross_references_def Let_def fold_present edges_after_fold)

lemma example_edges:
  assumes "A \<noteq> B" "A \<noteq> C" "B \<noteq> C"
  shows "fst (add_all [(w1, A, [B, C]), (w2, B, [A])] ([], d)) = [(A, [B, C]), (B, [A]), (C, [A])]"
  using assms by (simp add: add_cross_references_def add_edge_def Let_def adjacent_def)


text \<open>
  Claim C2. After any sequence of \<^verbatim>\<open>_add_cross_references\<close> calls on the empty graph,
  \<open>A\<close> is in the adjacency list of \<open>B\<close> exactly when \<open>B\<close> is in that of \<open>A\<close>, and no
  adjacency list holds an id twice; the same holds from any graph that is symmetric and
  free of duplicates. Adding an edge that exists changes nothing, and repeating a call
  changes nothing. For distinct \<open>A\<close>, \<open>B\<close>, \<open>C\<close> the calls \<open>(A, [B, C])\<close> and \<open>(B, [A])\<close>
  on the empty graph leave exactly the adjacency lists \<open>A: [B, C]\<close>, \<open>B: [A]\<close>,
  \<open>C: [A]\<close>.
\<close>

theorem cross_references_symmetric:
  "(\<forall>calls d A B.
       (A \<in> set (adjacent (fst (add_all calls ([], d))) B)
          \<longleftrightarrow> B \<in> set (adjacent (fst (add_all calls ([], d))) A))
       \<and> distinct (adjacent (fst (add_all calls ([], d))) A))
   \<and> (\<forall>calls st. symmetric_graph (fst st) \<longrightarrow> symmetric_graph (fst (add_all calls st)))
   \<and> (\<forall>w s t st. t \<in> set (adjacent (fst st) s) \<and> s \<in> set (adjacent (fst st) t)
         \<longrightarrow> fst (add_cross_references w s [t] st) = fst st)
   \<and> (\<forall>w w' s ts st. fst (add_cross_references w' s ts (add_cross_references w s ts st))
         = fst (add_cross_references w s ts st))
   \<and> (\<forall>w1 w2 d A B C. A \<noteq> B \<and> A \<noteq> C \<and> B \<noteq> C
         \<longrightarrow> fst (add_all [(w1, A, [B, C]), (w2, B, [A])] ([], d))
             = [(A, [B, C]), (B, [A]), (C, [A])])"
proof (intro conjI allI impI)
  fix calls :: "(write_outcome \<times> string \<times> string list) list" and d :: "xrefs doc" and A B
  have "symmetric_graph (fst (add_all calls ([], d)))"
    by (rule symmetric_add_all) (simp add: symmetric_empty)
  then show "A \<in> set (adjacent (fst (add_all calls ([], d))) B)
          \<longleftrightarrow> B \<in> set (adjacent (fst (add_all calls ([], d))) A)"
    and "distinct (adjacent (fst (add_all calls ([], d))) A)"
    by (simp_all add: symmetric_graph_def)
next
  fix calls and st :: "xrefs \<times> xrefs doc"
  assume "symmetric_graph (fst st)"
  then show "symmetric_graph (fst (add_all calls st))"
    by (rule symmetric_add_all)
next
  fix w s t and st :: "xrefs \<times> xrefs doc"
  assume "t \<in> set (adjacent (fst st) s) \<and> s \<in> set (adjacent (fst st) t)"
  then show "fst (add_cross_references w s [t] st) = fst st"
    by (simp add: add_cross_references_def Let_def add_edge_present)
next
  fix w w' s ts and st :: "xrefs \<times> xrefs doc"
  show "fst (add_cross_references w' s ts (add_cross_references w s ts st))
         = fst (add_cross_references w s ts st)"
    by (rule add_cross_references_idem)
next
  fix w1 w2 and d :: "xrefs doc" and A B C :: string
  assume "A \<noteq> B \<and> A \<noteq> C \<and> B \<noteq> C"
  then show "fst (add_all [(w1, A, [B, C]), (w2, B, [A])] ([], d))
             = [(A, [B, C]), (B, [A]), (C, [A])]"
    using example_edges [of A B C w1 w2 d] by blast
qed

theorem cross_references_symmetric_witness:
  "''A'' \<noteq> ''B'' \<and> ''A'' \<noteq> ''C'' \<and> ''B'' \<noteq> ''C''
   \<and> fst (add_all [(WriteOk, ''A'', [''B'', ''C'']), (WriteOk, ''B'', [''A''])] ([], Absent))
       = [(''A'', [''B'', ''C'']), (''B'', [''A'']), (''C'', [''A''])]
   \<and> symmetric_graph []
   \<and> symmetric_graph
        (fst (add_all [(WriteOk, ''A'', [''B'', ''C'']), (WriteOk, ''B'', [''A''])] ([], Absent)))"
proof -
  have h: "''A'' \<noteq> ''B'' \<and> ''A'' \<noteq> ''C'' \<and> ''B'' \<noteq> ''C''" by simp
  have e: "symmetric_graph (fst (([], Absent) :: xrefs \<times> xrefs doc))"
    by (simp add: symmetric_empty)
  note t = cross_references_symmetric
  from t [THEN conjunct2, THEN conjunct2, THEN conjunct2, THEN conjunct2, rule_format, OF h]
    t [THEN conjunct2, THEN conjunct1, rule_format, OF e]
    h symmetric_empty
  show ?thesis by blast
qed

section \<open>Properties of the thematic connection finder\<close>












section \<open>Properties of the search index\<close>

subsection \<open>The copy of the card index\<close>

lemma update_card_absent:
  "map_of (snapshot ix) z = None \<Longrightarrow> update_card fs ix z = (None, ix)"
  by (simp add: update_card_def)

lemma update_card_snapshot: "snapshot (snd (update_card fs ix z)) = snapshot ix"
  by (simp add: update_card_def split: option.splits sum.splits)

lemma index_all_snapshot: "snapshot (snd (index_all fs ix)) = snapshot ix"
  by (simp add: index_all_def split: prod.splits)

lemma new_indexer_snapshot:
  "new_indexer d t = Inr ix \<Longrightarrow> snapshot ix = load_metadata d [] \<and> zettel_index ix = t"
  by (auto simp: new_indexer_def load_metadata_def split: doc.splits)

text \<open>
  Claim C10. The indexer's copy of the card index is the document read by the
  constructor, and neither \<^verbatim>\<open>index_all\<close> nor \<^verbatim>\<open>update_card\<close> changes it (no operation
  but the constructor takes the document). For an id that the copy does not hold,
  \<^verbatim>\<open>update_card\<close> returns without an exception and leaves the indexer, so every row of
  the table, as it was, whatever the files hold at that time.
\<close>

theorem update_card_unknown_id_noop:
  "(\<forall>fs ix z. map_of (snapshot ix) z = None \<longrightarrow> update_card fs ix z = (None, ix))
   \<and> (\<forall>d t ix. new_indexer d t = Inr ix \<longrightarrow> snapshot ix = load_metadata d [] \<and> zettel_index ix = t)
   \<and> (\<forall>fs ix z. snapshot (snd (update_card fs ix z)) = snapshot ix)
   \<and> (\<forall>fs ix. snapshot (snd (index_all fs ix)) = snapshot ix)"
  by (simp add: update_card_absent new_indexer_snapshot update_card_snapshot index_all_snapshot)

theorem update_card_unknown_id_noop_witness:
  "map_of (snapshot \<lparr>snapshot = [(''1'', [(''file_path'', JStr ''X/main/1.md'')])],
                     zettel_index = []\<rparr>) ''2'' = None
   \<and> update_card (\<lambda>p. Text ''# Lakes'')
        \<lparr>snapshot = [(''1'', [(''file_path'', JStr ''X/main/1.md'')])], zettel_index = []\<rparr> ''2''
     = (None, \<lparr>snapshot = [(''1'', [(''file_path'', JStr ''X/main/1.md'')])], zettel_index = []\<rparr>)"
proof -
  have h: "map_of (snapshot \<lparr>snapshot = [(''1'', [(''file_path'', JStr ''X/main/1.md'')])],
                     zettel_index = []\<rparr>) ''2'' = None"
    by simp
  from update_card_unknown_id_noop [THEN conjunct1, rule_format, OF h] h
  show ?thesis by blast
qed

section \<open>Properties of the card store\<close>

subsection \<open>\<^verbatim>\<open>get_card\<close>\<close>










section \<open>Properties of the allocator's state\<close>

subsection \<open>Every operation keeps the shape of the scheme and never lowers a counter\<close>

lemma shape_le_refl: "shape_le s s"
  by (simp add: shape_le_def)

lemma shape_le_trans: "shape_le a b \<Longrightarrow> shape_le b c \<Longrightarrow> shape_le a c"
  unfolding shape_le_def by (metis order_trans)

lemma shape_le_update:
  assumes "kind_of (map_of s k) = kind_of (Some v)" "count_of (map_of s k) \<le> count_of (Some v)"
  shows "shape_le s (AList.update k v s)"
  using assms by (simp add: shape_le_def update_conv')

lemma incr_field_shape:
  "incr_field f s = Inr (n, s') \<Longrightarrow>
     shape_le s s' \<and> map_of s f = Some (SInt (n - 1)) \<and> map_of s' f = Some (SInt n)"
  by (auto simp: incr_field_def update_conv' kind_of_def count_of_def
      split: option.splits sval.splits intro!: shape_le_update)

lemma append_field_shape:
  "append_field f x s = Inr s' \<Longrightarrow>
     shape_le s s' \<and> (\<forall>k. k \<noteq> f \<longrightarrow> map_of s' k = map_of s k) \<and> is_list s f"
  by (auto simp: append_field_def update_conv' is_list_def kind_of_def count_of_def
      split: option.splits sval.splits intro!: shape_le_update)

lemma alloc_subtopic_shape: "shape_le s (snd (alloc_subtopic p s))"
proof (cases "map_of s ''subtopics''")
  case None
  then show ?thesis by (simp add: alloc_subtopic_def shape_le_refl)
next
  case (Some v)
  show ?thesis
  proof (cases v)
    case (SDict d)
    have 1: "shape_le s (AList.update ''subtopics'' (SDict d') s)" for d'
      by (rule shape_le_update) (simp_all add: Some SDict kind_of_def count_of_def)
    have 2: "AList.update ''subtopics'' (SDict d2) (AList.update ''subtopics'' (SDict d1) s)
           = AList.update ''subtopics'' (SDict d2) s" for d1 d2
      by simp
    show ?thesis
      using Some SDict by (simp add: alloc_subtopic_def Let_def 1 2 split: sum.splits)
  qed (simp_all add: Some alloc_subtopic_def shape_le_refl)
qed

lemma alloc_counter_shape: "shape_le s (snd (alloc_counter pfx f lf s))"
  by (auto simp: alloc_counter_def Let_def shape_le_refl split: sum.splits option.splits prod.splits
      dest!: incr_field_shape append_field_shape intro: shape_le_trans)

lemma generate_number_cases:
  "(\<exists>r. map_of rls c = Some r \<and> (increment_field r = None \<or> increment_field r = Some [])
        \<and> generate_number rls s c = (Inr ''unknown'', s))
   \<or> (\<exists>pfx f. bucket_of rls c = Some (pfx, f) \<and> f \<noteq> []
        \<and> (\<exists>lf. generate_number rls s c = alloc_counter pfx f lf s))
   \<or> (map_of rls c = None \<and> bucket_of rls c = None
        \<and> generate_number rls s c = alloc_subtopic (split_head c) s)"
proof (cases "map_of rls c")
  case (Some r)
  show ?thesis
  proof (cases "increment_field r")
    case None
    with Some show ?thesis by (simp add: generate_number_def)
  next
    case (Some f)
    note f = this
    show ?thesis
    proof (cases "f = []")
      case True
      with f \<open>map_of rls c = Some r\<close> show ?thesis by (simp add: generate_number_def)
    next
      case False
      with f \<open>map_of rls c = Some r\<close> show ?thesis
        by (simp add: generate_number_def bucket_of_def) blast
    qed
  qed
next
  case None
  note n = this
  show ?thesis
  proof (cases "c = ''frequent''")
    case True
    with n show ?thesis by (simp add: generate_number_def bucket_of_def) blast
  next
    case False
    note nf = this
    show ?thesis
    proof (cases "c = ''quote''")
      case True
      with n show ?thesis by (simp add: generate_number_def bucket_of_def) blast
    next
      case False
      note nq = this
      show ?thesis
      proof (cases "c = ''main''")
        case True
        with n show ?thesis by (simp add: generate_number_def bucket_of_def) blast
      next
        case False
        have "generate_number rls s c = alloc_subtopic (split_head c) s"
          using n nf nq False by (rule generate_number_subtopic)
        with n nf nq False show ?thesis by (simp add: bucket_of_def)
      qed
    qed
  qed
qed

lemma generate_number_shape: "shape_le s (snd (generate_number rls s c))"
  using generate_number_cases [of rls c s]
  by (auto simp: shape_le_refl alloc_counter_shape alloc_subtopic_shape)


subsection \<open>Decimal numerals are injective\<close>

lemma digits_nonempty: "digits n \<noteq> []"
  by (subst digits.simps) simp

lemma digit_char: "d < 10 \<Longrightarrow> of_char (char_of (48 + d) :: char) = (48 + d :: nat)"
  by simp

lemma digits_range: "c \<in> set (digits n) \<Longrightarrow> 48 \<le> (of_char c :: nat) \<and> (of_char c :: nat) \<le> 57"
proof (induction n arbitrary: c rule: digits.induct)
  case (1 n)
  show ?case
  proof (cases "n < 10")
    case True
    with "1.prems" have "c = char_of (48 + n)"
      by (subst (asm) digits.simps) simp
    with True show ?thesis by simp
  next
    case False
    with "1.prems" have "c \<in> set (digits (n div 10)) \<or> c = char_of (48 + n mod 10)"
      by (subst (asm) digits.simps) auto
    then show ?thesis
    proof
      assume "c \<in> set (digits (n div 10))"
      with False "1.IH" show ?thesis by blast
    next
      assume c: "c = char_of (48 + n mod 10)"
      have "n mod 10 < 10" by simp
      then have "(of_char (char_of (48 + n mod 10) :: char) :: nat) = 48 + n mod 10"
        by (rule digit_char)
      with c show ?thesis by simp
    qed
  qed
qed

lemma undigits_snoc: "undigits (s @ [c]) = 10 * undigits s + digit_val c"
  by (simp add: undigits_def)

lemma undigits_digits: "undigits (digits n) = n"
proof (induction n rule: digits.induct)
  case (1 n)
  show ?case
  proof (cases "n < 10")
    case True
    then have "digits n = [char_of (48 + n)]" by (subst digits.simps) simp
    with True show ?thesis by (simp add: undigits_def digit_val_def)
  next
    case False
    then have d: "digits n = digits (n div 10) @ [char_of (48 + n mod 10)]"
      by (subst digits.simps) simp
    have "n mod 10 < 10" by simp
    then have "digit_val (char_of (48 + n mod 10)) = n mod 10"
      unfolding digit_val_def by (simp only: digit_char)
    with False "1.IH" d show ?thesis
      by (simp add: undigits_snoc)
  qed
qed

lemma digits_inj: "digits m = digits n \<Longrightarrow> m = n"
  by (metis undigits_digits)

lemma digits_no_minus: "digits n \<noteq> CHR ''-'' # s"
proof
  assume "digits n = CHR ''-'' # s"
  then have "CHR ''-'' \<in> set (digits n)" by simp
  then have "48 \<le> (of_char (CHR ''-'') :: nat)" by (blast dest: digits_range)
  then show False by simp
qed

lemma str_int_inj: "str_int i = str_int j \<Longrightarrow> i = j"
  by (auto simp: str_int_def digits_no_minus digits_no_minus [symmetric]
      split: if_splits dest!: digits_inj)


subsection \<open>What a counter bucket returns\<close>

lemma alloc_counter_success:
  assumes "alloc_counter pfx f lf s = (Inr a, s')"
  shows "\<exists>n. map_of s f = Some (SInt n) \<and> map_of s' f = Some (SInt (n + 1))
           \<and> a = pfx @ str_int (n + 1)"
proof -
  from assms obtain n s1 where i: "incr_field f s = Inr (n, s1)"
    by (auto simp: alloc_counter_def split: sum.splits)
  then have m: "map_of s f = Some (SInt (n - 1))" "map_of s1 f = Some (SInt n)"
    by (auto dest: incr_field_shape)
  show ?thesis
  proof (cases lf)
    case None
    with assms i have "a = pfx @ str_int n" "s' = s1"
      by (auto simp: alloc_counter_def Let_def)
    with m show ?thesis by auto
  next
    case (Some l)
    with assms i obtain s2 where ap: "append_field l (pfx @ str_int n) s1 = Inr s2"
      and r: "a = pfx @ str_int n" "s' = s2"
      by (auto simp: alloc_counter_def Let_def split: sum.splits)
    from ap have "is_list s1 l" "\<forall>k. k \<noteq> l \<longrightarrow> map_of s2 k = map_of s1 k"
      by (auto dest: append_field_shape)
    moreover from \<open>is_list s1 l\<close> m have "f \<noteq> l"
      by (auto simp: is_list_def)
    ultimately have "map_of s2 f = Some (SInt n)"
      using m by simp
    with m r show ?thesis by auto
  qed
qed

lemma bucket_success:
  assumes "bucket_of rls c = Some (pfx, f)" "generate_number rls s c = (Inr a, s')"
  shows "\<exists>n. map_of s f = Some (SInt n) \<and> map_of s' f = Some (SInt (n + 1))
           \<and> a = pfx @ str_int (n + 1)"
proof -
  from generate_number_cases [of rls c s] assms(1)
  obtain lf where "generate_number rls s c = alloc_counter pfx f lf s"
    by (auto simp: bucket_of_def split: option.splits if_splits)
  with assms(2) show ?thesis
    by (simp add: alloc_counter_success)
qed

lemma shape_le_counter:
  assumes "shape_le s s'" "map_of s f = Some (SInt n)"
  shows "\<exists>n'. n \<le> n' \<and> map_of s' f = Some (SInt n')"
proof -
  from assms have k: "kind_of (map_of s' f) = 1" and c: "n \<le> count_of (map_of s' f)"
    by (auto simp: shape_le_def kind_of_def count_of_def dest!: spec [where x = f])
  from k obtain n' where "map_of s' f = Some (SInt n')"
    by (auto simp: kind_of_def split: option.splits sval.splits)
  with c show ?thesis by (simp add: count_of_def)
qed


subsection \<open>Runs: allocations and reloads\<close>

lemma shape_le_nonempty:
  assumes "shape_le s0 s" "map_of s0 f = Some (SInt n0)"
  shows "s \<noteq> []"
  using shape_le_counter [OF assms] by auto

lemma generate_zettel_number_unfold:
  "generate_zettel_number w rls st co c =
     (fst (generate_number rls (fst st) c), snd (generate_number rls (fst st) c),
      (case fst (generate_number rls (fst st) c) of
         Inl e \<Rightarrow> snd st
       | Inr a \<Rightarrow> save_metadata w (snd (generate_number rls (fst st) c)) (snd st)))"
  by (simp add: generate_zettel_number_def split: prod.splits sum.splits)

lemma step_keeps_bound:
  assumes "write_ok ev" "map_of s0 f = Some (SInt n0)" "shape_le s0 mem" "shape_le s0 sd"
  shows "\<exists>mem' sd'. snd (step rls ev (mem, Stored sd)) = (mem', Stored sd')
           \<and> shape_le s0 mem' \<and> shape_le s0 sd'"
proof (cases ev)
  case (Allocate w c)
  with assms(1) have w: "w = WriteOk" by (simp add: write_ok_def)
  have m: "shape_le s0 (snd (generate_number rls mem c))"
    using assms(3) generate_number_shape by (rule shape_le_trans)
  show ?thesis
  proof (cases "fst (generate_number rls mem c)")
    case (Inl e)
    with Allocate m assms(4) show ?thesis
      by (simp add: generate_zettel_number_unfold)
  next
    case (Inr a)
    with Allocate w m show ?thesis
      by (simp add: generate_zettel_number_unfold save_metadata_def)
  qed
next
  case (Reload w)
  from assms(4) assms(2) have "sd \<noteq> []" by (rule shape_le_nonempty)
  with Reload assms(4) show ?thesis
    by (simp add: load_scheme_def load_metadata_def Let_def)
qed

lemma step_result:
  assumes "fst (step rls ev (mem, d)) = Some (c, Inr a)"
  shows "\<exists>w. ev = Allocate w c \<and> fst (generate_number rls mem c) = Inr a"
  using assms
  by (cases ev) (auto simp: generate_zettel_number_unfold)

lemma first_result_above:
  assumes "bucket_of rls c = Some (pfx, f)" "map_of s0 f = Some (SInt n0)" "shape_le s0 mem"
    "fst (step rls ev (mem, d)) = Some (c, Inr a)"
  shows "\<exists>n. n0 < n \<and> a = pfx @ str_int n"
proof -
  from step_result [OF assms(4)] have g: "fst (generate_number rls mem c) = Inr a" by blast
  then have "generate_number rls mem c = (Inr a, snd (generate_number rls mem c))"
    by (simp add: prod_eq_iff)
  from bucket_success [OF assms(1) this]
  obtain n where n: "map_of mem f = Some (SInt n)" "a = pfx @ str_int (n + 1)" by blast
  from shape_le_counter [OF assms(3) assms(2)] n have "n0 < n + 1" by simp
  with n show ?thesis by blast
qed

lemma run_bound:
  assumes "\<forall>ev\<in>set evs. write_ok ev" "bucket_of rls c = Some (pfx, f)"
    "map_of s0 f = Some (SInt n0)" "shape_le s0 mem" "shape_le s0 sd"
    "j < length evs" "run rls evs (mem, Stored sd) ! j = Some (c, Inr a)"
  shows "\<exists>n. n0 < n \<and> a = pfx @ str_int n"
  using assms
proof (induction evs arbitrary: mem sd j)
  case Nil
  then show ?case by simp
next
  case (Cons ev evs)
  show ?case
  proof (cases j)
    case 0
    with Cons.prems have "fst (step rls ev (mem, Stored sd)) = Some (c, Inr a)" by simp
    with Cons.prems show ?thesis by (blast intro: first_result_above)
  next
    case (Suc k)
    from Cons.prems have "write_ok ev" by simp
    from step_keeps_bound [OF this Cons.prems(3) Cons.prems(4) Cons.prems(5)]
    obtain mem' sd' where s: "snd (step rls ev (mem, Stored sd)) = (mem', Stored sd')"
      "shape_le s0 mem'" "shape_le s0 sd'" by blast
    from Cons.prems Suc s have "run rls evs (mem', Stored sd') ! k = Some (c, Inr a)" "k < length evs"
      by simp_all
    with Cons.IH [of mem' sd' k] Cons.prems s show ?thesis by simp
  qed
qed

lemma run_increasing:
  assumes "\<forall>ev\<in>set evs. write_ok ev" "bucket_of rls c = Some (pfx, f)"
    "i < j" "j < length evs"
    "run rls evs st ! i = Some (c, Inr a)" "run rls evs st ! j = Some (c, Inr b)"
  shows "\<exists>m n. a = pfx @ str_int m \<and> b = pfx @ str_int n \<and> m < n"
  using assms
proof (induction evs arbitrary: st i j)
  case Nil
  then show ?case by simp
next
  case (Cons ev evs)
  from Cons.prems obtain k where j: "j = Suc k" by (cases j) auto
  show ?case
  proof (cases i)
    case 0
    with Cons.prems have r: "fst (step rls ev st) = Some (c, Inr a)" by simp
    then have r': "fst (step rls ev (fst st, snd st)) = Some (c, Inr a)" by simp
    from step_result [OF r'] obtain w where ev: "ev = Allocate w c"
      and g: "fst (generate_number rls (fst st) c) = Inr a" by blast
    from Cons.prems ev have w: "w = WriteOk" by (simp add: write_ok_def)
    define mem' where "mem' = snd (generate_number rls (fst st) c)"
    from g have gg: "generate_number rls (fst st) c = (Inr a, mem')"
      by (simp add: mem'_def prod_eq_iff)
    from bucket_success [OF Cons.prems(2) gg]
    obtain n where n: "map_of mem' f = Some (SInt (n + 1))" "a = pfx @ str_int (n + 1)" by blast
    have s: "snd (step rls ev st) = (mem', Stored mem')"
      using ev w gg by (simp add: generate_zettel_number_unfold save_metadata_def)
    from Cons.prems j s have "run rls evs (mem', Stored mem') ! k = Some (c, Inr b)" "k < length evs"
      by simp_all
    with run_bound [of evs rls c pfx f mem' "n + 1" mem' mem' k b] Cons.prems n
    obtain n' where "n + 1 < n'" "b = pfx @ str_int n'"
      by (auto simp: shape_le_refl)
    with n show ?thesis by blast
  next
    case (Suc i')
    with Cons.prems j have "run rls evs (snd (step rls ev st)) ! i' = Some (c, Inr a)"
      "run rls evs (snd (step rls ev st)) ! k = Some (c, Inr b)" "i' < k" "k < length evs"
      by simp_all
    with Cons.IH [of i' k "snd (step rls ev st)"] Cons.prems show ?thesis by simp
  qed
qed


end
